theory Spec2Isabelle
  imports Main
begin

section \<open>JavaScript values\<close>

text \<open>
  A value of TypeScript type \<open>boolean\<close> read from an array may be \<open>undefined\<close>
  (an index past the end, or a slot never written): \<open>None\<close> is \<open>undefined\<close>.
  \<open>truthy\<close> is the conversion \<open>!!x\<close> that \<open>if (x)\<close> and \<open>!x\<close> apply.
\<close>

type_synonym jsbool = "bool option"

definition truthy :: "jsbool \<Rightarrow> bool" where
  "truthy b = (b = Some True)"

text \<open>\<open>xs[i]\<close> for a non-negative integer index: \<open>undefined\<close> out of range.\<close>

definition js_index :: "jsbool list \<Rightarrow> nat \<Rightarrow> jsbool" where
  "js_index xs i = (if i < length xs then xs ! i else None)"

text \<open>An index of type \<open>number\<close> holding an integer is in range of an array.\<close>

definition in_range :: "int \<Rightarrow> 'a list \<Rightarrow> bool" where
  "in_range i xs = (0 \<le> i \<and> i < int (length xs))"

section \<open>The table model\<close>

text \<open>
  The class \<open>TableModel\<close> (imported by \<open>table.component.ts\<close> from
  \<open>./table.module\<close>) and the classes \<open>TableItem\<close> and \<open>TableHeaderItem\<close> are
  not among the source files. Their data and operations are modelled from the
  specification, sections 3 and 4.1; the component \<open>Table\<close> that calls them is
  translated from \<open>table.component.ts\<close>.
\<close>

text \<open>
  Modelled from the spec: the nested-children sequence of a row item; each child owns its
  own expansion flag and its own children.
\<close>

datatype row_node = RowNode (node_data: string) (node_expanded: bool) (children: "row_node list")

text \<open>Modelled from the spec: a cell (\<open>TableItem\<close>), its payload and its children.\<close>

record table_item =
  item_data :: string
  expandedData :: "row_node list"

text \<open>
  Modelled from the spec: a column header (\<open>TableHeaderItem\<close>). The filter predicate
  is optional; a header that carries one has an active filter.
\<close>

record header_item =
  header_data :: string
  visible :: bool
  sorted :: bool
  descending :: bool
  filter_h :: "(table_item \<Rightarrow> bool) option"
  filterCount :: nat

datatype row_context = NoContext | Success | Warning | Info | Error

text \<open>The notifications of the model: \<open>rowsSelectedChange\<close> and \<open>dataChange\<close>.\<close>

datatype model_event = RowsSelectedChange | DataChange

record table_model =
  header :: "header_item list"
  data :: "table_item list list"
  rowsSelected :: "jsbool list"
  rowsExpanded :: "jsbool list"
  rowsContext :: "row_context list"
  currentPage :: nat
  pageLength :: nat
  totalDataLength :: nat
  isLoading :: bool
  isEnd :: bool

text \<open>
  A model operation returns the new model and the notifications it emitted, in order.
\<close>

type_synonym model_result = "table_model \<times> model_event list"

text \<open>
  Modelled from the spec: \<open>TableModel.selectedRowsCount\<close>, the count of rows where
  \<open>rowsSelected[i]\<close> is true.
\<close>

definition selectedRowsCount :: "table_model \<Rightarrow> nat" where
  "selectedRowsCount m = length (filter truthy (rowsSelected m))"

text \<open>
  Modelled from the spec: \<open>TableModel.selectRow\<close> sets \<open>rowsSelected[index] = value\<close>
  and emits a selection-changed notification; out of range it is a silent no-op.
\<close>

definition selectRow :: "table_model \<Rightarrow> int \<Rightarrow> bool \<Rightarrow> model_result" where
  "selectRow m index v =
     (if in_range index (rowsSelected m)
      then (m\<lparr>rowsSelected := (rowsSelected m)[nat index := Some v]\<rparr>, [RowsSelectedChange])
      else (m, []))"

text \<open>
  Modelled from the spec: \<open>TableModel.selectAll\<close> sets every entry of
  \<open>rowsSelected\<close> to the value in one pass and emits once.
\<close>

definition selectAll :: "table_model \<Rightarrow> bool \<Rightarrow> model_result" where
  "selectAll m v =
     (m\<lparr>rowsSelected := map (\<lambda>_. Some v) (rowsSelected m)\<rparr>, [RowsSelectedChange])"

text \<open>
  Modelled from the spec: \<open>TableModel.expandRow\<close> sets \<open>rowsExpanded[index]\<close> and
  does not touch the children; out of range it is a no-op.
\<close>

definition expandRow :: "table_model \<Rightarrow> int \<Rightarrow> bool \<Rightarrow> model_result" where
  "expandRow m index expand =
     (if in_range index (rowsExpanded m)
      then (m\<lparr>rowsExpanded := (rowsExpanded m)[nat index := Some expand]\<rparr>, [DataChange])
      else (m, []))"

text \<open>
  Modelled from the spec: the index move of \<open>TableModel.moveColumn\<close> on one
  sequence: the element at \<open>fromIndex\<close> is removed and re-inserted at \<open>toIndex\<close>.
  A sequence too short for either index is left as it is.
\<close>

definition move_item :: "nat \<Rightarrow> nat \<Rightarrow> 'a list \<Rightarrow> 'a list" where
  "move_item fromIndex toIndex xs =
     (if fromIndex < length xs \<and> toIndex < length xs
      then (let rest = take fromIndex xs @ drop (Suc fromIndex) xs
            in take toIndex rest @ xs ! fromIndex # drop toIndex rest)
      else xs)"

text \<open>
  Modelled from the spec: \<open>TableModel.moveColumn\<close> moves the header and applies the
  same index move to every row's cells; out-of-range indices are a no-op (the permissive
  policy the spec ascribes to the original).
\<close>

definition moveColumn :: "table_model \<Rightarrow> int \<Rightarrow> int \<Rightarrow> model_result" where
  "moveColumn m fromIndex toIndex =
     (if in_range fromIndex (header m) \<and> in_range toIndex (header m)
      then (m\<lparr>header := move_item (nat fromIndex) (nat toIndex) (header m),
              data := map (move_item (nat fromIndex) (nat toIndex)) (data m)\<rparr>, [DataChange])
      else (m, []))"

text \<open>
  The index before the move of the column that stands at index \<open>j\<close> after it.
\<close>

definition moved_from :: "nat \<Rightarrow> nat \<Rightarrow> nat \<Rightarrow> nat" where
  "moved_from fromIndex toIndex j =
     (if j = toIndex then fromIndex
      else (let k = (if j < toIndex then j else j - 1)
            in if k < fromIndex then k else Suc k))"

text \<open>
  Modelled from the spec: a column's filter hides a cell when the header carries a filter
  predicate and the predicate returns false for the cell.
\<close>

definition fails_filter :: "header_item \<Rightarrow> table_item \<Rightarrow> bool" where
  "fails_filter h c = (case filter_h h of None \<Rightarrow> False | Some f \<Rightarrow> \<not> f c)"

text \<open>
  Modelled from the spec: \<open>TableModel.isRowFiltered\<close>: the row is hidden if any
  column's active filter returns false for the row's cell in that column; a read out of
  range returns the falsy default.
\<close>

definition isRowFiltered :: "table_model \<Rightarrow> int \<Rightarrow> bool" where
  "isRowFiltered m index =
     (if in_range index (data m)
      then list_ex (\<lambda>(h, c). fails_filter h c) (zip (header m) (data m ! nat index))
      else False)"

text \<open>
  Modelled from the spec: replacing \<open>data\<close> re-derives the bookkeeping arrays at the
  new length, either cleared or preserved by index (the spec leaves the policy open).
\<close>

datatype replace_policy = Reset | PreserveByIndex

definition rederive :: "replace_policy \<Rightarrow> nat \<Rightarrow> 'a \<Rightarrow> 'a list \<Rightarrow> 'a list" where
  "rederive p n d old =
     (case p of
        Reset \<Rightarrow> replicate n d
      | PreserveByIndex \<Rightarrow> take n old @ replicate (n - length old) d)"

definition setData :: "replace_policy \<Rightarrow> table_model \<Rightarrow> table_item list list \<Rightarrow> model_result" where
  "setData p m newData =
     (m\<lparr>data := newData,
        rowsSelected := rederive p (length newData) (Some False) (rowsSelected m),
        rowsExpanded := rederive p (length newData) (Some False) (rowsExpanded m),
        rowsContext := rederive p (length newData) NoContext (rowsContext m)\<rparr>, [DataChange])"

text \<open>The mutations of the model, and a sequence of them applied in order.\<close>

datatype mutation =
    SelectRowOp int bool
  | SelectAllOp bool
  | ExpandRowOp int bool
  | MoveColumnOp int int
  | SetDataOp replace_policy "table_item list list"

fun apply_mutation :: "table_model \<Rightarrow> mutation \<Rightarrow> table_model" where
  "apply_mutation m (SelectRowOp i v) = fst (selectRow m i v)"
| "apply_mutation m (SelectAllOp v) = fst (selectAll m v)"
| "apply_mutation m (ExpandRowOp i e) = fst (expandRow m i e)"
| "apply_mutation m (MoveColumnOp f t) = fst (moveColumn m f t)"
| "apply_mutation m (SetDataOp p d) = fst (setData p m d)"

definition lengths_agree :: "table_model \<Rightarrow> bool" where
  "lengths_agree m =
     (length (rowsSelected m) = length (data m)
      \<and> length (rowsExpanded m) = length (data m)
      \<and> length (rowsContext m) = length (data m))"

definition empty_model :: table_model where
  "empty_model =
     \<lparr>header = [], data = [], rowsSelected = [], rowsExpanded = [], rowsContext = [],
      currentPage = 1, pageLength = 10, totalDataLength = 0, isLoading = False, isEnd = False\<rparr>"

section \<open>The table component\<close>

text \<open>
  The class \<open>Table\<close> of \<open>table.component.ts\<close>: the fields its handlers read and
  write, and the values its \<open>@Output\<close> emitters emitted, oldest first.
\<close>

datatype table_output =
    Sort nat
  | SelectAll
  | DeselectAll
  | SelectRow nat
  | DeselectRow nat

record table =
  model :: table_model
  showSelectionColumn :: bool
  enableSingleSelect :: bool
  selectAllCheckbox :: jsbool
  selectAllCheckboxSomeSelected :: bool
  isColumnDragging :: bool
  columnDraggedHoverIndex :: int
  columnDraggedPosition :: string
  outputs :: "table_output list"

text \<open>\<open>Table.updateSelectAllCheckbox\<close> (lines 592-602).\<close>

definition updateSelectAllCheckbox :: "table \<Rightarrow> table" where
  "updateSelectAllCheckbox t =
     (let selectedCount = selectedRowsCount (model t) in
      if selectedCount \<le> 0
      then t\<lparr>selectAllCheckbox := Some False, selectAllCheckboxSomeSelected := False\<rparr>
      else if selectedCount < length (data (model t))
      then t\<lparr>selectAllCheckboxSomeSelected := True\<rparr>
      else t)"

text \<open>
  The setter \<open>model\<close> (lines 392-402) subscribes \<open>updateSelectAllCheckbox\<close> to both
  notifications of the model, and the emitters call their subscribers synchronously: a
  call of a model operation from the table runs the operation, then the handler once for
  each notification the operation emitted.
\<close>

definition model_call :: "table \<Rightarrow> (table_model \<Rightarrow> model_result) \<Rightarrow> table" where
  "model_call t f =
     (case f (model t) of
        (m', evs) \<Rightarrow> fold (\<lambda>e t'. updateSelectAllCheckbox t') evs (t\<lparr>model := m'\<rparr>))"

text \<open>
  A JavaScript array may have unwritten slots (as \<open>new Array(n)\<close> has): reading one
  gives \<open>undefined\<close>, and \<open>forEach\<close> skips it. The list of values does not tell an
  unwritten slot from a slot that holds \<open>undefined\<close>, so which slots of
  \<open>rowsSelected\<close> are written is the parameter \<open>written\<close> of the handler that
  iterates; \<open>unwritten_undefined\<close> says that the unwritten slots read \<open>undefined\<close>.
\<close>

definition unwritten_undefined :: "(nat \<Rightarrow> bool) \<Rightarrow> jsbool list \<Rightarrow> bool" where
  "unwritten_undefined written xs = list_all (\<lambda>k. written k \<or> xs ! k = None) [0 ..< length xs]"

text \<open>
  \<open>Table.onRowSelect\<close> (lines 583-590). \<open>forEach\<close> visits, in order, the indices
  below the length whose slot is written; its callback writes only the slot it visits.
\<close>

definition onRowSelect :: "table \<Rightarrow> (nat \<Rightarrow> bool) \<Rightarrow> nat \<Rightarrow> table" where
  "onRowSelect t written index =
     (if \<not> showSelectionColumn t \<and> enableSingleSelect t
      then (let t1 = fold (\<lambda>index t'. model_call t' (\<lambda>m. selectRow m (int index) False))
                       (filter written [0 ..< length (rowsSelected (model t))]) t
            in model_call t1
                 (\<lambda>m. selectRow m (int index) (\<not> truthy (js_index (rowsSelected (model t1)) index))))
      else t)"

text \<open>
  The loop of \<open>Table.onSelectAllCheckboxChange\<close> (lines 625-627), from index \<open>i\<close>:
  it writes the array entries directly, which emits nothing.
\<close>

function set_rows_from :: "jsbool list \<Rightarrow> jsbool \<Rightarrow> nat \<Rightarrow> jsbool list" where
  "set_rows_from rs v i = (if i < length rs then set_rows_from (rs[i := v]) v (Suc i) else rs)"
  by pat_completeness auto
termination
  by (relation "measure (\<lambda>(rs, v, i). length rs - i)") auto

text \<open>
  \<open>Table.onSelectAllCheckboxChange\<close> (lines 611-628). The call
  \<open>applicationRef.tick()\<close> runs the framework's change detection and is not part of
  the model.
\<close>

definition onSelectAllCheckboxChange :: "table \<Rightarrow> table" where
  "onSelectAllCheckboxChange t =
     (let t1 = (if selectAllCheckboxSomeSelected t
                then t\<lparr>selectAllCheckbox := Some False, outputs := outputs t @ [DeselectAll]\<rparr>
                else if truthy (selectAllCheckbox t)
                then t\<lparr>outputs := outputs t @ [SelectAll]\<rparr>
                else t\<lparr>outputs := outputs t @ [DeselectAll]\<rparr>);
          t2 = t1\<lparr>selectAllCheckboxSomeSelected := False\<rparr>
      in t2\<lparr>model := (model t2)\<lparr>rowsSelected :=
                set_rows_from (rowsSelected (model t2)) (selectAllCheckbox t2) 0\<rparr>\<rparr>)"

text \<open>
  The loop of \<open>Table.onRowCheckboxChange\<close> (lines 648-657), from index \<open>i\<close>: true
  when it finds an entry whose truth value differs from that of \<open>startValue\<close> (the
  early return), false when it runs to the end.
\<close>

function differs_from :: "jsbool list \<Rightarrow> jsbool \<Rightarrow> nat \<Rightarrow> bool" where
  "differs_from rs startValue i =
     (if i < length rs
      then (if truthy (rs ! i) \<noteq> truthy startValue then True
            else differs_from rs startValue (Suc i))
      else False)"
  by pat_completeness auto
termination
  by (relation "measure (\<lambda>(rs, v, i). length rs - i)") auto

text \<open>\<open>Table.onRowCheckboxChange\<close> (lines 639-661).\<close>

definition onRowCheckboxChange :: "table \<Rightarrow> nat \<Rightarrow> table" where
  "onRowCheckboxChange t index =
     (let rs = rowsSelected (model t);
          startValue = js_index rs 0;
          t1 = (if truthy (js_index rs index)
                then t\<lparr>outputs := outputs t @ [SelectRow index]\<rparr>
                else t\<lparr>outputs := outputs t @ [DeselectRow index]\<rparr>)
      in if differs_from rs startValue 1
         then t1\<lparr>selectAllCheckbox := Some False, selectAllCheckboxSomeSelected := True\<rparr>
         else t1\<lparr>selectAllCheckboxSomeSelected := False, selectAllCheckbox := startValue\<rparr>)"


text \<open>
  The sort button of column \<open>i\<close> in the template (lines 184-190):
  \<open>(click)="sort.emit(i)"\<close>.
\<close>

definition sortClick :: "table \<Rightarrow> nat \<Rightarrow> table" where
  "sortClick t i = t\<lparr>outputs := outputs t @ [Sort i]\<rparr>"

text \<open>
  The expand button of row \<open>i\<close> in the template (lines 284-287):
  \<open>(click)="model.expandRow(i, !model.rowsExpanded[i])"\<close>.
\<close>

definition expandClick :: "table \<Rightarrow> nat \<Rightarrow> table" where
  "expandClick t i =
     model_call t (\<lambda>m. expandRow m (int i) (\<not> truthy (js_index (rowsExpanded m) i)))"

text \<open>
  \<open>Table.columnDrop\<close> (lines 708-717); \<open>fromIndex\<close> is the integer that
  \<open>parseInt\<close> reads from the drag event.
\<close>

datatype drop_position = DropLeft | DropRight

definition columnDrop :: "table \<Rightarrow> int \<Rightarrow> drop_position \<Rightarrow> nat \<Rightarrow> table" where
  "columnDrop t fromIndex position columnIndex =
     model_call
       (t\<lparr>isColumnDragging := False, columnDraggedHoverIndex := - 1, columnDraggedPosition := []\<rparr>)
       (\<lambda>m. moveColumn m fromIndex (int columnIndex + (if position = DropRight then 1 else 0)))"

text \<open>
  The filter of the example header \<open>FilterableHeaderItem\<close> in the documentation of
  the class \<open>Table\<close> (lines 72-81), on a cell whose data is a string;
  \<open>filterData\<close> is the text of the filter. The string method \<open>toLowerCase\<close> is
  a parameter, and \<open>indexOf\<close> returns the first position of the search string or
  \<open>-1\<close>.
\<close>

definition indexOf :: "string \<Rightarrow> string \<Rightarrow> int" where
  "indexOf s searchString =
     (case find (\<lambda>i. take (length searchString) (drop i s) = searchString)
                [0 ..< Suc (length s)] of
        None \<Rightarrow> - 1
      | Some i \<Rightarrow> int i)"

definition example_filter :: "(string \<Rightarrow> string) \<Rightarrow> string \<Rightarrow> table_item \<Rightarrow> bool" where
  "example_filter toLowerCase filterData item =
     (if indexOf (toLowerCase (item_data item)) (toLowerCase filterData) \<ge> 0 then False else True)"

text \<open>The user's actions on the table, each handled by the handler above.\<close>

datatype table_action =
    RowSelect "nat \<Rightarrow> bool" nat
  | SelectAllCheckboxChange
  | RowCheckboxChange nat
  | SortClick nat
  | ExpandClick nat
  | ColumnDrop int drop_position nat

fun perform :: "table \<Rightarrow> table_action \<Rightarrow> table" where
  "perform t (RowSelect written i) = onRowSelect t written i"
| "perform t SelectAllCheckboxChange = onSelectAllCheckboxChange t"
| "perform t (RowCheckboxChange i) = onRowCheckboxChange t i"
| "perform t (SortClick i) = sortClick t i"
| "perform t (ExpandClick i) = expandClick t i"
| "perform t (ColumnDrop f p c) = columnDrop t f p c"

section \<open>The icon service\<close>

text \<open>
  The static fields of \<open>IconService\<close> that \<open>doSpriteRequest\<close> uses, the lines
  written with \<open>console.error\<close> and the URLs requested over HTTP, oldest first.
\<close>

record icon_service =
  baseURL :: string
  runningRequests :: int
  console_errors :: "string list"
  http_requests :: "string list"

text \<open>The outcome of one \<open>http.get\<close>: the response text, or a failure.\<close>

datatype http_outcome = HttpText string | HttpFailure

text \<open>
  \<open>IconService.doSpriteRequest\<close> (lines 63-74) with one subscription to the
  observable it returns. The server is the parameter \<open>http\<close>. The result is the
  observable's outcome: \<open>Inr\<close> the value it delivers, \<open>Inl\<close> the error it ends with.
\<close>

definition sprite_error :: "string \<Rightarrow> string" where
  "sprite_error name =
     ''failed to load sprite '' @ name
       @ '', check that the server is available and baseURL is correct''"

definition doSpriteRequest ::
    "(string \<Rightarrow> http_outcome) \<Rightarrow> icon_service \<Rightarrow> string \<Rightarrow> icon_service \<times> (string + string)" where
  "doSpriteRequest http s name =
     (let s1 = s\<lparr>runningRequests := runningRequests s + 1,
                 http_requests := http_requests s @ [baseURL s @ name @ ''.svg'']\<rparr>
      in case http (baseURL s @ name @ ''.svg'') of
           HttpText body \<Rightarrow> (s1\<lparr>runningRequests := runningRequests s1 - 1\<rparr>, Inr body)
         | HttpFailure \<Rightarrow>
             (s1\<lparr>console_errors := console_errors s1 @ [sprite_error name]\<rparr>,
              Inl (sprite_error name)))"

section \<open>Sample values\<close>

definition plain_item :: "string \<Rightarrow> table_item" where
  "plain_item d = \<lparr>item_data = d, expandedData = []\<rparr>"

definition plain_header :: "string \<Rightarrow> header_item" where
  "plain_header d =
     \<lparr>header_data = d, visible = True, sorted = False, descending = False,
      filter_h = None, filterCount = 0\<rparr>"

text \<open>A model of one column whose rows carry the given selection flags.\<close>

definition model_with_rows :: "jsbool list \<Rightarrow> table_model" where
  "model_with_rows rs =
     empty_model\<lparr>header := [plain_header ''Name''],
                 data := map (\<lambda>_. [plain_item ''x'']) rs,
                 rowsSelected := rs,
                 rowsExpanded := map (\<lambda>_. Some False) rs,
                 rowsContext := map (\<lambda>_. NoContext) rs\<rparr>"

text \<open>A table around a model: the defaults of the class \<open>Table\<close>, nothing emitted.\<close>

definition table_of :: "table_model \<Rightarrow> table" where
  "table_of m =
     \<lparr>model = m, showSelectionColumn = True, enableSingleSelect = False,
      selectAllCheckbox = Some False, selectAllCheckboxSomeSelected = False,
      isColumnDragging = False, columnDraggedHoverIndex = - 1, columnDraggedPosition = [],
      outputs = []\<rparr>"

text \<open>The same table in single-select mode.\<close>

definition single_select_table :: "jsbool list \<Rightarrow> table" where
  "single_select_table rs =
     (table_of (model_with_rows rs))\<lparr>showSelectionColumn := False, enableSingleSelect := True\<rparr>"

text \<open>A table of three columns and two rows whose cells carry their column's label.\<close>

definition sample_grid :: table_model where
  "sample_grid =
     empty_model\<lparr>header := map plain_header [''A'', ''B'', ''C''],
                 data := [map plain_item [''A'', ''B'', ''C''], map plain_item [''A'', ''B'', ''C'']],
                 rowsSelected := [Some False, Some False],
                 rowsExpanded := [Some False, Some False],
                 rowsContext := [NoContext, NoContext]\<rparr>"

text \<open>A header with a filter predicate.\<close>

definition filtering_header :: "string \<Rightarrow> (table_item \<Rightarrow> bool) \<Rightarrow> header_item" where
  "filtering_header d f = (plain_header d)\<lparr>filter_h := Some f, filterCount := 1\<rparr>"


text \<open>
  Two rows; the first has an expanded child that has a collapsed child of its own.
\<close>

definition sample_tree :: table_model where
  "sample_tree =
     empty_model\<lparr>header := [plain_header ''Name''],
                 data := [[\<lparr>item_data = ''parent'',
                            expandedData = [RowNode ''child'' True [RowNode ''grandchild'' False []]]\<rparr>],
                          [plain_item ''leaf'']],
                 rowsSelected := [Some False, Some False],
                 rowsExpanded := [Some True, Some False],
                 rowsContext := [NoContext, NoContext]\<rparr>"

text \<open>A server that fails every request, and the service before any request.\<close>

definition failing_server :: "string \<Rightarrow> http_outcome" where
  "failing_server url = HttpFailure"

definition fresh_icon_service :: icon_service where
  "fresh_icon_service =
     \<lparr>baseURL = ''https://peretz-icons.mybluemix.net/'', runningRequests = 0,
      console_errors = [], http_requests = []\<rparr>"

lemmas sample_defs =
  model_with_rows_def table_of_def empty_model_def plain_item_def plain_header_def

section \<open>Selection of one row\<close>

lemma in_range_nat: "in_range i xs \<Longrightarrow> nat i < length xs"
  unfolding in_range_def by linarith

lemma count_update_true:
  assumes "i < length rs"
  shows "length (filter truthy (rs[i := Some True]))
           = length (filter truthy rs) + (if truthy (rs ! i) then 0 else 1)"
proof -
  have split: "rs = take i rs @ (rs ! i) # drop (Suc i) rs"
    using assms by (simp add: id_take_nth_drop)
  have upd: "rs[i := Some True] = take i rs @ Some True # drop (Suc i) rs"
    using assms by (simp add: upd_conv_take_nth_drop)
  have "length (filter truthy rs)
          = length (filter truthy (take i rs)) + (if truthy (rs ! i) then 1 else 0)
            + length (filter truthy (drop (Suc i) rs))"
    by (subst split) simp
  moreover have "length (filter truthy (rs[i := Some True]))
          = length (filter truthy (take i rs)) + 1 + length (filter truthy (drop (Suc i) rs))"
    by (simp add: upd truthy_def)
  ultimately show ?thesis by simp
qed

text \<open>
  C5. For an in-range index, \<open>selectRow\<close> stores the value at that index, leaves the
  length and every other entry alone and emits one selection-changed notification;
  selecting a row raises \<open>selectedRowsCount\<close> by exactly one unless the row was already
  selected; for an out-of-range index (negative or past the end) nothing changes and
  nothing is emitted.
\<close>

theorem selectRow_sets_row_or_noop:
  "(in_range i (rowsSelected m) \<longrightarrow>
      rowsSelected (fst (selectRow m i v)) = (rowsSelected m)[nat i := Some v]
      \<and> js_index (rowsSelected (fst (selectRow m i v))) (nat i) = Some v
      \<and> snd (selectRow m i v) = [RowsSelectedChange]
      \<and> selectedRowsCount (fst (selectRow m i True))
          = selectedRowsCount m + (if truthy (js_index (rowsSelected m) (nat i)) then 0 else 1))
   \<and> (\<not> in_range i (rowsSelected m) \<longrightarrow> selectRow m i v = (m, []))"
proof (intro conjI impI)
  assume r: "in_range i (rowsSelected m)"
  then have lt: "nat i < length (rowsSelected m)"
    by (rule in_range_nat)
  show "rowsSelected (fst (selectRow m i v)) = (rowsSelected m)[nat i := Some v]"
    using r by (simp add: selectRow_def)
  show "js_index (rowsSelected (fst (selectRow m i v))) (nat i) = Some v"
    using r lt by (simp add: selectRow_def js_index_def)
  show "snd (selectRow m i v) = [RowsSelectedChange]"
    using r by (simp add: selectRow_def)
  show "selectedRowsCount (fst (selectRow m i True))
          = selectedRowsCount m + (if truthy (js_index (rowsSelected m) (nat i)) then 0 else 1)"
    using r lt count_update_true [OF lt]
    by (simp add: selectRow_def selectedRowsCount_def js_index_def)
next
  assume "\<not> in_range i (rowsSelected m)"
  then show "selectRow m i v = (m, [])"
    by (simp add: selectRow_def)
qed

theorem selectRow_sets_row_or_noop_witness:
  "in_range 1 (rowsSelected (model_with_rows [Some False, Some False]))
   \<and> rowsSelected (fst (selectRow (model_with_rows [Some False, Some False]) 1 True))
       = [Some False, Some True]
   \<and> snd (selectRow (model_with_rows [Some False, Some False]) 1 True) = [RowsSelectedChange]
   \<and> selectedRowsCount (fst (selectRow (model_with_rows [Some False, Some False]) 1 True)) = 1
   \<and> \<not> in_range 2 (rowsSelected (model_with_rows [Some False, Some False]))
   \<and> \<not> in_range (- 1) (rowsSelected (model_with_rows [Some False, Some False]))
   \<and> selectRow (model_with_rows [Some False, Some False]) 2 True
       = (model_with_rows [Some False, Some False], [])
   \<and> selectRow (model_with_rows [Some False, Some False]) (- 1) True
       = (model_with_rows [Some False, Some False], [])"
  using selectRow_sets_row_or_noop [of 1 "model_with_rows [Some False, Some False]" True]
        selectRow_sets_row_or_noop [of 2 "model_with_rows [Some False, Some False]" True]
        selectRow_sets_row_or_noop [of "- 1" "model_with_rows [Some False, Some False]" True]
  by (simp add: sample_defs in_range_def selectedRowsCount_def truthy_def js_index_def)

section \<open>The handlers leave the model to the model's operations\<close>

lemma model_updateSelectAllCheckbox: "model (updateSelectAllCheckbox t) = model t"
  by (simp add: updateSelectAllCheckbox_def Let_def)

lemma model_fold_update:
  "model (fold (\<lambda>e t'. updateSelectAllCheckbox t') evs t) = model t"
  by (induction evs arbitrary: t) (simp_all add: model_updateSelectAllCheckbox)

lemma model_model_call: "model (model_call t f) = fst (f (model t))"
  by (cases "f (model t)") (simp add: model_call_def model_fold_update)

lemma rowsSelected_selectRow:
  "rowsSelected (fst (selectRow m i v))
     = (if in_range i (rowsSelected m) then (rowsSelected m)[nat i := Some v] else rowsSelected m)"
  by (simp add: selectRow_def)

section \<open>Single selection\<close>

text \<open>
  After the \<open>forEach\<close> of \<open>onRowSelect\<close> has passed the first \<open>k\<close> indices, the
  written slots among them are cleared and every other slot is as it was.
\<close>

lemma clear_written_prefix:
  "k \<le> length (rowsSelected (model t)) \<Longrightarrow>
   rowsSelected (model (fold (\<lambda>index t'. model_call t' (\<lambda>m. selectRow m (int index) False))
                          (filter written [0 ..< k]) t))
     = map (\<lambda>j. if written j then Some False else rowsSelected (model t) ! j) [0 ..< k]
       @ drop k (rowsSelected (model t))"
proof (induction k)
  case 0
  then show ?case by simp
next
  case (Suc k)
  let ?rs = "rowsSelected (model t)"
  let ?pre = "map (\<lambda>j. if written j then Some False else ?rs ! j) [0 ..< k]"
  have lt: "k < length ?rs" using Suc.prems by simp
  have IH: "rowsSelected (model (fold (\<lambda>index t'. model_call t' (\<lambda>m. selectRow m (int index) False))
                          (filter written [0 ..< k]) t)) = ?pre @ drop k ?rs"
    using Suc by simp
  have d: "drop k ?rs = ?rs ! k # drop (Suc k) ?rs"
    using lt by (simp add: Cons_nth_drop_Suc)
  show ?case
  proof (cases "written k")
    case True
    have r: "in_range (int k) (?pre @ drop k ?rs)"
      using lt by (simp add: in_range_def)
    have "(?pre @ drop k ?rs)[k := Some False] = ?pre @ Some False # drop (Suc k) ?rs"
      by (simp add: list_update_append d)
    then show ?thesis
      using True IH r by (simp add: model_model_call rowsSelected_selectRow)
  next
    case False
    then show ?thesis
      using IH d by simp
  qed
qed

lemma onRowSelect_rows:
  assumes "\<not> showSelectionColumn t" "enableSingleSelect t"
    and "unwritten_undefined written (rowsSelected (model t))"
  shows "rowsSelected (model (onRowSelect t written i))
           = (map (\<lambda>k. if written k then Some False else None)
                [0 ..< length (rowsSelected (model t))])[i := Some True]"
proof -
  let ?rs = "rowsSelected (model t)"
  let ?n = "length ?rs"
  let ?t1 = "fold (\<lambda>index t'. model_call t' (\<lambda>m. selectRow m (int index) False))
               (filter written [0 ..< ?n]) t"
  let ?swept = "map (\<lambda>k. if written k then Some False else None) [0 ..< ?n]"
  have "rowsSelected (model ?t1) = map (\<lambda>j. if written j then Some False else ?rs ! j) [0 ..< ?n]"
    using clear_written_prefix [of ?n t written] by simp
  also have "\<dots> = ?swept"
    using assms(3) by (auto simp: unwritten_undefined_def list_all_iff)
  finally have swept: "rowsSelected (model ?t1) = ?swept" .
  have neg: "\<not> truthy (js_index ?swept i)"
    by (simp add: js_index_def truthy_def)
  show ?thesis
    using assms(1,2) swept neg
    by (simp add: onRowSelect_def Let_def model_model_call rowsSelected_selectRow in_range_def
          list_update_beyond)
qed

lemma truthy_swept:
  "map truthy (map (\<lambda>k. if written k then Some False else None) [0 ..< n]) = replicate n False"
  by (simp add: truthy_def comp_def map_replicate_const)

lemma count_swept:
  "length (filter truthy (map (\<lambda>k. if written k then Some False else None) [0 ..< n])) = 0"
  by (simp add: truthy_def filter_empty_conv)

text \<open>
  C10. In single-select mode (\<open>showSelectionColumn\<close> false, \<open>enableSingleSelect\<close>
  true), whatever the selection was, after \<open>onRowSelect(i)\<close> on a row \<open>i\<close> of the
  table row \<open>i\<close> is selected and no other row is: every other written slot holds
  false and every unwritten slot is still unwritten, so read by truth value exactly row
  \<open>i\<close> is selected, also when row \<open>i\<close> was selected before (the flag is read after
  the rows were cleared, so the toggle always selects); on an array without unwritten
  slots every other row holds false; for any index the handler never leaves more than
  one row selected.
\<close>

theorem onRowSelect_single_select:
  assumes "\<not> showSelectionColumn t" and "enableSingleSelect t"
    and "unwritten_undefined written (rowsSelected (model t))"
  shows "(i < length (rowsSelected (model t)) \<longrightarrow>
            rowsSelected (model (onRowSelect t written i))
              = (map (\<lambda>k. if written k then Some False else None)
                   [0 ..< length (rowsSelected (model t))])[i := Some True]
            \<and> map truthy (rowsSelected (model (onRowSelect t written i)))
              = (replicate (length (rowsSelected (model t))) False)[i := True]
            \<and> ((\<forall>k < length (rowsSelected (model t)). written k) \<longrightarrow>
                 rowsSelected (model (onRowSelect t written i))
                   = (replicate (length (rowsSelected (model t))) (Some False))[i := Some True])
            \<and> selectedRowsCount (model (onRowSelect t written i)) = 1)
         \<and> selectedRowsCount (model (onRowSelect t written j)) \<le> 1"
proof (intro conjI impI)
  let ?n = "length (rowsSelected (model t))"
  let ?swept = "map (\<lambda>k. if written k then Some False else None) [0 ..< ?n]"
  note rows = onRowSelect_rows [OF assms]
  show "rowsSelected (model (onRowSelect t written i)) = ?swept[i := Some True]"
    by (rule rows)
  show "map truthy (rowsSelected (model (onRowSelect t written i))) = (replicate ?n False)[i := True]"
    unfolding rows map_update truthy_swept by (simp add: truthy_def)
  show "rowsSelected (model (onRowSelect t written i)) = (replicate ?n (Some False))[i := Some True]"
    if "\<forall>k < ?n. written k"
  proof -
    have "?swept = map (\<lambda>k. Some False) [0 ..< ?n]"
      using that by simp
    then show ?thesis
      unfolding rows by (simp add: map_replicate_const)
  qed
  show "selectedRowsCount (model (onRowSelect t written i)) = 1" if "i < ?n"
    using that count_update_true [of i ?swept]
    by (simp add: selectedRowsCount_def rows count_swept truthy_def)
  show "selectedRowsCount (model (onRowSelect t written j)) \<le> 1"
  proof (cases "j < ?n")
    case True
    then show ?thesis
      using count_update_true [of j ?swept]
      by (simp add: selectedRowsCount_def rows count_swept truthy_def)
  next
    case False
    then have "rowsSelected (model (onRowSelect t written j)) = ?swept"
      by (simp add: rows list_update_beyond)
    then have "selectedRowsCount (model (onRowSelect t written j)) = 0"
      by (simp only: selectedRowsCount_def count_swept)
    then show ?thesis by simp
  qed
qed

theorem onRowSelect_single_select_witness:
  "\<not> showSelectionColumn (single_select_table [Some True, Some True, Some False])
   \<and> enableSingleSelect (single_select_table [Some True, Some True, Some False])
   \<and> unwritten_undefined (\<lambda>k. True) [Some True, Some True, Some False]
   \<and> rowsSelected (model (onRowSelect (single_select_table [Some True, Some True, Some False])
                             (\<lambda>k. True) 1))
       = [Some False, Some True, Some False]
   \<and> selectedRowsCount (model (onRowSelect (single_select_table [Some True, Some True, Some False])
                                  (\<lambda>k. True) 1)) = 1
   \<and> selectedRowsCount (model (onRowSelect (single_select_table [Some True, Some True, Some False])
                                  (\<lambda>k. True) 7)) \<le> 1
   \<and> unwritten_undefined (\<lambda>k. k = 2) [None, None, Some True]
   \<and> rowsSelected (model (onRowSelect (single_select_table [None, None, Some True]) (\<lambda>k. k = 2) 1))
       = [None, Some True, Some False]
   \<and> map truthy (rowsSelected (model (onRowSelect (single_select_table [None, None, Some True])
                                         (\<lambda>k. k = 2) 1)))
       = [False, True, False]"
proof -
  let ?dense = "single_select_table [Some True, Some True, Some False]"
  let ?sparse = "single_select_table [None, None, Some True]"
  have mode: "\<not> showSelectionColumn ?dense" "enableSingleSelect ?dense"
      "\<not> showSelectionColumn ?sparse" "enableSingleSelect ?sparse"
    by (simp_all add: single_select_table_def sample_defs)
  have rows: "rowsSelected (model ?dense) = [Some True, Some True, Some False]"
      "rowsSelected (model ?sparse) = [None, None, Some True]"
    by (simp_all add: single_select_table_def sample_defs)
  have upt3: "[0 ..< 3] = [0, 1, 2]"
    by code_simp
  have holes: "unwritten_undefined (\<lambda>k. True) [Some True, Some True, Some False]"
      "unwritten_undefined (\<lambda>k. k = 2) [None, None, Some True]"
    by (simp_all add: unwritten_undefined_def upt3)
  note dense = onRowSelect_single_select [of ?dense "\<lambda>k. True" 1 7, unfolded rows,
      OF mode(1,2) holes(1)]
  note sparse = onRowSelect_single_select [of ?sparse "\<lambda>k. k = 2" 1 1, unfolded rows,
      OF mode(3,4) holes(2)]
  have d1: "rowsSelected (model (onRowSelect ?dense (\<lambda>k. True) 1)) = [Some False, Some True, Some False]"
    using dense by (simp add: upt3)
  have d2: "selectedRowsCount (model (onRowSelect ?dense (\<lambda>k. True) 1)) = 1"
      "selectedRowsCount (model (onRowSelect ?dense (\<lambda>k. True) 7)) \<le> 1"
    using dense by simp_all
  have s1: "rowsSelected (model (onRowSelect ?sparse (\<lambda>k. k = 2) 1)) = [None, Some True, Some False]"
    using sparse by (simp add: upt3)
  have s2: "map truthy (rowsSelected (model (onRowSelect ?sparse (\<lambda>k. k = 2) 1))) = [False, True, False]"
    using sparse by (simp add: numeral_3_eq_3 truthy_def)
  show ?thesis
    using mode(1,2) holes d1 d2 s1 s2 by blast
qed

section \<open>The header checkbox\<close>

lemma set_rows_from_eq:
  "i \<le> length rs \<Longrightarrow> set_rows_from rs v i = take i rs @ replicate (length rs - i) v"
proof (induction rs v i rule: set_rows_from.induct)
  case (1 rs v i)
  show ?case
  proof (cases "i < length rs")
    case True
    then have "set_rows_from rs v i = set_rows_from (rs[i := v]) v (Suc i)"
      by simp
    also have "\<dots> = take (Suc i) (rs[i := v]) @ replicate (length rs - Suc i) v"
      using True "1.IH" by simp
    also have "take (Suc i) (rs[i := v]) = take i rs @ [v]"
      using True by (simp add: take_Suc_conv_app_nth)
    also have "(take i rs @ [v]) @ replicate (length rs - Suc i) v
                 = take i rs @ replicate (Suc (length rs - Suc i)) v"
      by simp
    also have "Suc (length rs - Suc i) = length rs - i"
      using True by simp
    finally show ?thesis .
  next
    case False
    with "1.prems" show ?thesis by simp
  qed
qed

lemma set_rows_from_0: "set_rows_from rs v 0 = replicate (length rs) v"
  by (simp add: set_rows_from_eq del: set_rows_from.simps)

lemma count_replicate:
  "length (filter truthy (replicate n v)) = (if truthy v then n else 0)"
  by simp

text \<open>
  C4. Selecting or deselecting all rows: \<open>onSelectAllCheckboxChange\<close> takes the value
  \<open>v\<close> of the header checkbox (false when the checkbox was indeterminate), sets every
  entry of \<open>rowsSelected\<close> to \<open>v\<close> in one pass over the array, which is the effect
  the spec gives \<open>selectAll(v)\<close>, and emits exactly one notification (\<open>selectAll\<close> when
  \<open>v\<close> is true, \<open>deselectAll\<close> otherwise); afterwards \<open>selectedRowsCount()\<close> is
  \<open>data.length\<close> when \<open>v\<close> is true and \<open>0\<close> when it is false.
\<close>

theorem onSelectAllCheckboxChange_sets_every_row:
  assumes "lengths_agree (model t)"
  shows "let v = (if selectAllCheckboxSomeSelected t then Some False else selectAllCheckbox t);
             t' = onSelectAllCheckboxChange t
         in selectAllCheckbox t' = v
            \<and> rowsSelected (model t') = replicate (length (rowsSelected (model t))) v
            \<and> outputs t' = outputs t @ [if truthy v then SelectAll else DeselectAll]
            \<and> selectedRowsCount (model t') = (if truthy v then length (data (model t')) else 0)
            \<and> model t' = (model t)\<lparr>rowsSelected := map (\<lambda>_. v) (rowsSelected (model t))\<rparr>
            \<and> (\<forall>b. v = Some b \<longrightarrow> model t' = fst (selectAll (model t) b))"
  using assms
  by (simp add: onSelectAllCheckboxChange_def Let_def set_rows_from_0 selectedRowsCount_def
        lengths_agree_def truthy_def map_replicate_const selectAll_def del: set_rows_from.simps)

theorem onSelectAllCheckboxChange_sets_every_row_witness:
  "lengths_agree (model ((table_of (model_with_rows [Some True, None, Some False]))
                            \<lparr>selectAllCheckbox := Some True\<rparr>))
   \<and> rowsSelected (model (onSelectAllCheckboxChange
         ((table_of (model_with_rows [Some True, None, Some False]))\<lparr>selectAllCheckbox := Some True\<rparr>)))
       = [Some True, Some True, Some True]
   \<and> outputs (onSelectAllCheckboxChange
         ((table_of (model_with_rows [Some True, None, Some False]))\<lparr>selectAllCheckbox := Some True\<rparr>))
       = [SelectAll]
   \<and> selectedRowsCount (model (onSelectAllCheckboxChange
         ((table_of (model_with_rows [Some True, None, Some False]))\<lparr>selectAllCheckbox := Some True\<rparr>)))
       = 3
   \<and> model (onSelectAllCheckboxChange
         ((table_of (model_with_rows [Some True, None, Some False]))\<lparr>selectAllCheckbox := Some True\<rparr>))
       = fst (selectAll (model_with_rows [Some True, None, Some False]) True)"
proof -
  let ?t = "(table_of (model_with_rows [Some True, None, Some False]))\<lparr>selectAllCheckbox := Some True\<rparr>"
  have inv: "lengths_agree (model ?t)"
    by (simp add: lengths_agree_def sample_defs)
  have v: "(if selectAllCheckboxSomeSelected ?t then Some False else selectAllCheckbox ?t) = Some True"
    by (simp add: sample_defs)
  have n: "length (rowsSelected (model ?t)) = Suc (Suc (Suc 0))" "length (data (model ?t)) = 3"
      "outputs ?t = []"
    by (simp_all add: sample_defs)
  note th = onSelectAllCheckboxChange_sets_every_row [OF inv, unfolded Let_def v n]
  show ?thesis
    using th inv by (simp add: truthy_def selectedRowsCount_def selectAll_def sample_defs)
qed

text \<open>
  The loop of \<open>onRowCheckboxChange\<close> finds a differing entry exactly when there is one
  at or after its start index.
\<close>

lemma differs_from_iff:
  "differs_from rs sv i \<longleftrightarrow> (\<exists>j. i \<le> j \<and> j < length rs \<and> truthy (rs ! j) \<noteq> truthy sv)"
proof (induction rs sv i rule: differs_from.induct)
  case (1 rs sv i)
  show ?case
  proof (cases "i < length rs \<and> truthy (rs ! i) = truthy sv")
    case True
    then have "differs_from rs sv i = differs_from rs sv (Suc i)" by simp
    also have "\<dots> \<longleftrightarrow> (\<exists>j. Suc i \<le> j \<and> j < length rs \<and> truthy (rs ! j) \<noteq> truthy sv)"
      using True "1.IH" by simp
    also have "\<dots> \<longleftrightarrow> (\<exists>j. i \<le> j \<and> j < length rs \<and> truthy (rs ! j) \<noteq> truthy sv)"
      using True by (metis Suc_leD Suc_leI le_neq_implies_less)
    finally show ?thesis .
  next
    case False
    then show ?thesis by auto
  qed
qed


lemma updateSelectAllCheckbox_all_selected:
  "0 < selectedRowsCount (model t) \<Longrightarrow> selectedRowsCount (model t) = length (data (model t)) \<Longrightarrow>
   updateSelectAllCheckbox t = t"
  by (simp add: updateSelectAllCheckbox_def Let_def)

text \<open>
  The handler of a row's checkbox derives all three states of the header checkbox on a
  table with at least one row.
\<close>

lemma onRowCheckboxChange_tristate:
  assumes ne: "rowsSelected (model t) \<noteq> []"
  shows "(selectedRowsCount (model t) = 0 \<longrightarrow>
            \<not> truthy (selectAllCheckbox (onRowCheckboxChange t i))
            \<and> \<not> selectAllCheckboxSomeSelected (onRowCheckboxChange t i))
       \<and> (0 < selectedRowsCount (model t)
            \<and> selectedRowsCount (model t) < length (rowsSelected (model t)) \<longrightarrow>
            \<not> truthy (selectAllCheckbox (onRowCheckboxChange t i))
            \<and> selectAllCheckboxSomeSelected (onRowCheckboxChange t i))
       \<and> (selectedRowsCount (model t) = length (rowsSelected (model t)) \<longrightarrow>
            truthy (selectAllCheckbox (onRowCheckboxChange t i))
            \<and> \<not> selectAllCheckboxSomeSelected (onRowCheckboxChange t i))"
proof -
  let ?rs = "rowsSelected (model t)"
  have start: "js_index ?rs 0 = ?rs ! 0"
    using ne by (simp add: js_index_def)
  have in0: "?rs ! 0 \<in> set ?rs"
    using ne by simp
  have d: "differs_from ?rs (?rs ! 0) 1 \<longleftrightarrow> (\<exists>x\<in>set ?rs. truthy x \<noteq> truthy (?rs ! 0))"
  proof
    assume "differs_from ?rs (?rs ! 0) 1"
    then obtain j where "j < length ?rs" "truthy (?rs ! j) \<noteq> truthy (?rs ! 0)"
      unfolding differs_from_iff by blast
    then show "\<exists>x\<in>set ?rs. truthy x \<noteq> truthy (?rs ! 0)"
      using nth_mem by blast
  next
    assume "\<exists>x\<in>set ?rs. truthy x \<noteq> truthy (?rs ! 0)"
    then obtain j where j: "j < length ?rs" "truthy (?rs ! j) \<noteq> truthy (?rs ! 0)"
      by (auto simp: in_set_conv_nth)
    have "j \<noteq> 0"
    proof
      assume "j = 0"
      with j(2) show False by simp
    qed
    then have "1 \<le> j" by simp
    with j show "differs_from ?rs (?rs ! 0) 1"
      unfolding differs_from_iff by blast
  qed
  have none: "\<forall>x\<in>set ?rs. \<not> truthy x" if "selectedRowsCount (model t) = 0"
    using that by (simp add: selectedRowsCount_def filter_empty_conv)
  have all: "\<forall>x\<in>set ?rs. truthy x" if "selectedRowsCount (model t) = length ?rs"
    using that length_filter_less [of _ ?rs truthy]
    by (auto simp: selectedRowsCount_def)
  have some_sel: "\<exists>x\<in>set ?rs. truthy x" if "0 < selectedRowsCount (model t)"
    using that by (auto simp: selectedRowsCount_def filter_empty_conv)
  have some_not: "\<exists>x\<in>set ?rs. \<not> truthy x"
    if "selectedRowsCount (model t) < length ?rs"
  proof (rule ccontr)
    assume "\<not> (\<exists>x\<in>set ?rs. \<not> truthy x)"
    then have "filter truthy ?rs = ?rs" by (simp add: filter_id_conv)
    with that show False by (simp add: selectedRowsCount_def)
  qed
  show ?thesis
  proof (intro conjI impI)
    assume c0: "selectedRowsCount (model t) = 0"
    then have nd: "\<not> differs_from ?rs (?rs ! 0) 1"
      using none [OF c0] d in0 by blast
    have "\<not> truthy (?rs ! 0)" using none [OF c0] in0 by blast
    with nd show "\<not> truthy (selectAllCheckbox (onRowCheckboxChange t i))"
      and "\<not> selectAllCheckboxSomeSelected (onRowCheckboxChange t i)"
      by (simp_all add: onRowCheckboxChange_def Let_def start del: differs_from.simps)
  next
    assume "0 < selectedRowsCount (model t) \<and> selectedRowsCount (model t) < length ?rs"
    then have "differs_from ?rs (?rs ! 0) 1"
      using some_sel some_not d by blast
    then show "\<not> truthy (selectAllCheckbox (onRowCheckboxChange t i))"
      and "selectAllCheckboxSomeSelected (onRowCheckboxChange t i)"
      by (simp_all add: onRowCheckboxChange_def Let_def start truthy_def del: differs_from.simps)
  next
    assume cn: "selectedRowsCount (model t) = length ?rs"
    then have nd: "\<not> differs_from ?rs (?rs ! 0) 1"
      using all [OF cn] d in0 by blast
    have "truthy (?rs ! 0)" using all [OF cn] in0 by blast
    with nd show "truthy (selectAllCheckbox (onRowCheckboxChange t i))"
      and "\<not> selectAllCheckboxSomeSelected (onRowCheckboxChange t i)"
      by (simp_all add: onRowCheckboxChange_def Let_def start del: differs_from.simps)
  qed
qed

text \<open>
  C1. The header checkbox after a selection change that reaches the table through the
  model's notification: on a table of one row with nothing selected and the header
  unchecked, \<open>model.selectRow(0, true)\<close> selects every row, and
  \<open>updateSelectAllCheckbox\<close> leaves the header unchecked, where the specification has
  it checked; the handler called on that state changes nothing. The handler of the row's
  checkbox, \<open>onRowCheckboxChange\<close>, checks the header in the same situation.
\<close>

theorem updateSelectAllCheckbox_all_selected_stays_unchecked:
  "updateSelectAllCheckbox (table_of (model_with_rows [Some True]))
     = table_of (model_with_rows [Some True])
   \<and> selectedRowsCount (model_with_rows [Some True]) = length (data (model_with_rows [Some True]))
   \<and> selectAllCheckbox (table_of (model_with_rows [Some True])) = Some False
   \<and> rowsSelected (model (model_call (table_of (model_with_rows [Some False]))
                              (\<lambda>m. selectRow m 0 True))) = [Some True]
   \<and> selectedRowsCount (model (model_call (table_of (model_with_rows [Some False]))
                              (\<lambda>m. selectRow m 0 True)))
     = length (data (model (model_call (table_of (model_with_rows [Some False]))
                              (\<lambda>m. selectRow m 0 True))))
   \<and> selectAllCheckbox (model_call (table_of (model_with_rows [Some False]))
                              (\<lambda>m. selectRow m 0 True)) = Some False
   \<and> \<not> selectAllCheckboxSomeSelected (model_call (table_of (model_with_rows [Some False]))
                              (\<lambda>m. selectRow m 0 True))
   \<and> selectAllCheckbox (onRowCheckboxChange (table_of (model_with_rows [Some True])) 0) = Some True"
  by (simp add: model_call_def selectRow_def in_range_def updateSelectAllCheckbox_def
        selectedRowsCount_def truthy_def onRowCheckboxChange_def js_index_def Let_def sample_defs)

section \<open>Moving a column\<close>

lemma length_move_item: "length (move_item f t xs) = length xs"
  by (auto simp: move_item_def Let_def)

lemma move_item_nth_to:
  "f < length xs \<Longrightarrow> t < length xs \<Longrightarrow> move_item f t xs ! t = xs ! f"
  by (auto simp: move_item_def Let_def nth_append)

lemma remove_nth:
  "f < length xs \<Longrightarrow> k < length xs - 1 \<Longrightarrow>
   (take f xs @ drop (Suc f) xs) ! k = (if k < f then xs ! k else xs ! Suc k)"
  by (auto simp: nth_append min_def)

lemma insert_nth:
  assumes t: "t \<le> length ys"
  shows "(take t ys @ x # drop t ys) ! j
           = (if j < t then ys ! j else if j = t then x else ys ! (j - 1))"
proof -
  have lt: "length (take t ys) = t"
    using t by (simp add: min_absorb2)
  consider "j < t" | "j = t" | "t < j" by linarith
  then show ?thesis
  proof cases
    case 1
    then have "(take t ys @ x # drop t ys) ! j = take t ys ! j"
      by (simp only: nth_append lt if_True)
    with 1 show ?thesis by simp
  next
    case 2
    have "(take t ys @ x # drop t ys) ! length (take t ys) = x"
      by (rule nth_append_length)
    then have e: "(take t ys @ x # drop t ys) ! t = x"
      by (simp only: lt)
    show ?thesis
      unfolding 2 by (simp only: e less_irrefl if_False if_True refl)
  next
    case 3
    define d where "d = j - Suc t"
    have d: "j = t + Suc d"
      using 3 by (simp add: d_def)
    have "(take t ys @ x # drop t ys) ! (length (take t ys) + Suc d) = (x # drop t ys) ! Suc d"
      by (rule nth_append_length_plus)
    then have "(take t ys @ x # drop t ys) ! (t + Suc d) = drop t ys ! d"
      by (simp only: lt nth_Cons_Suc)
    also have "\<dots> = ys ! (t + d)"
      using t by (rule nth_drop)
    finally have r: "(take t ys @ x # drop t ys) ! Suc (t + d) = ys ! (t + d)"
      by (simp only: add_Suc_right)
    have c: "\<not> j < t" "j \<noteq> t"
      using 3 by simp_all
    have "(take t ys @ x # drop t ys) ! j = ys ! (j - 1)"
      by (simp only: d r add_Suc_right diff_Suc_1)
    then show ?thesis
      by (simp only: c if_False)
  qed
qed

lemma insert_others:
  "t \<le> length ys \<Longrightarrow>
   take t (take t ys @ x # drop t ys) @ drop (Suc t) (take t ys @ x # drop t ys) = ys"
  by (simp add: min_absorb2)

lemma move_item_unfold:
  assumes "f < length xs" "t < length xs"
  shows "move_item f t xs
           = take t (take f xs @ drop (Suc f) xs) @ xs ! f # drop t (take f xs @ drop (Suc f) xs)"
  using assms by (simp add: move_item_def Let_def del: take_append drop_append)

lemma move_item_others:
  assumes "f < length xs" "t < length xs"
  shows "take t (move_item f t xs) @ drop (Suc t) (move_item f t xs)
           = take f xs @ drop (Suc f) xs"
proof -
  define ys where "ys = take f xs @ drop (Suc f) xs"
  have len: "t \<le> length ys"
    using assms by (auto simp: ys_def)
  have "move_item f t xs = take t ys @ xs ! f # drop t ys"
    unfolding ys_def using assms by (rule move_item_unfold)
  then show ?thesis
    using insert_others [OF len] by (simp add: ys_def del: take_append drop_append)
qed

lemma move_item_nth:
  assumes "f < length xs" "t < length xs" "j < length xs"
  shows "move_item f t xs ! j = xs ! moved_from f t j"
proof -
  define ys where "ys = take f xs @ drop (Suc f) xs"
  have len: "length ys = length xs - 1"
    using assms by (auto simp: ys_def)
  have ys_nth: "ys ! k = (if k < f then xs ! k else xs ! Suc k)" if "k < length xs - 1" for k
    unfolding ys_def using assms(1) that by (rule remove_nth)
  have m: "move_item f t xs = take t ys @ xs ! f # drop t ys"
    unfolding ys_def using assms(1,2) by (rule move_item_unfold)
  have "move_item f t xs ! j = (if j < t then ys ! j else if j = t then xs ! f else ys ! (j - 1))"
    unfolding m using assms len by (intro insert_nth) simp
  also have "\<dots> = xs ! moved_from f t j"
    using assms by (auto simp: moved_from_def Let_def ys_nth)
  finally show ?thesis .
qed

lemma move_item_all2:
  assumes "list_all2 P xs ys"
  shows "list_all2 P (move_item f t xs) (move_item f t ys)"
proof -
  have len: "length xs = length ys"
    using assms by (rule list_all2_lengthD)
  show ?thesis
  proof (cases "f < length xs \<and> t < length xs")
    case True
    have rest: "list_all2 P (take f xs @ drop (Suc f) xs) (take f ys @ drop (Suc f) ys)"
      using assms by (intro list_all2_appendI list_all2_takeI list_all2_dropI)
    have at: "P (xs ! f) (ys ! f)"
      using assms True by (simp add: list_all2_nthD)
    show ?thesis
      using True len rest at
      by (auto simp: move_item_def Let_def simp del: take_append drop_append
            intro!: list_all2_appendI list_all2_takeI list_all2_dropI)
  next
    case False
    with len assms show ?thesis by (auto simp: move_item_def)
  qed
qed

text \<open>
  C2. For a table of \<open>C\<close> columns whose rows have \<open>C\<close> cells each and indices
  \<open>0 \<le> fromIndex, toIndex < C\<close>, \<open>moveColumn\<close> takes the header at
  \<open>fromIndex\<close> out and puts it at \<open>toIndex\<close>, the other headers keeping their
  order, and moves the cells of every row the same way: the header and the cell at
  position \<open>j\<close> after the move come from the same position before it, so headers
  and cells that corresponded by position before the move (for any correspondence
  \<open>corr\<close>) still do for every \<open>j\<close>.
\<close>

theorem moveColumn_keeps_alignment:
  assumes f: "in_range fromIndex (header m)" and t: "in_range toIndex (header m)"
    and aligned: "list_all (\<lambda>row. list_all2 corr (header m) row) (data m)"
  shows "header (fst (moveColumn m fromIndex toIndex)) ! nat toIndex = header m ! nat fromIndex
       \<and> take (nat toIndex) (header (fst (moveColumn m fromIndex toIndex)))
             @ drop (Suc (nat toIndex)) (header (fst (moveColumn m fromIndex toIndex)))
           = take (nat fromIndex) (header m) @ drop (Suc (nat fromIndex)) (header m)
       \<and> data (fst (moveColumn m fromIndex toIndex))
           = map (move_item (nat fromIndex) (nat toIndex)) (data m)
       \<and> list_all (\<lambda>row. list_all2 corr (header (fst (moveColumn m fromIndex toIndex))) row)
            (data (fst (moveColumn m fromIndex toIndex)))
       \<and> (\<forall>j < length (header m).
             header (fst (moveColumn m fromIndex toIndex)) ! j
               = header m ! moved_from (nat fromIndex) (nat toIndex) j
             \<and> (\<forall>i < length (data m).
                   data (fst (moveColumn m fromIndex toIndex)) ! i ! j
                     = data m ! i ! moved_from (nat fromIndex) (nat toIndex) j))"
proof -
  let ?f = "nat fromIndex" and ?t = "nat toIndex"
  have fl: "?f < length (header m)" using f by (rule in_range_nat)
  have tl: "?t < length (header m)" using t by (rule in_range_nat)
  have h: "header (fst (moveColumn m fromIndex toIndex)) = move_item ?f ?t (header m)"
    using f t by (simp add: moveColumn_def)
  have d: "data (fst (moveColumn m fromIndex toIndex)) = map (move_item ?f ?t) (data m)"
    using f t by (simp add: moveColumn_def)
  have row_len: "length row = length (header m)" if "row \<in> set (data m)" for row
    using aligned that list_all2_lengthD by (fastforce simp: list_all_iff)
  have c1: "header (fst (moveColumn m fromIndex toIndex)) ! ?t = header m ! ?f"
    unfolding h using fl tl by (rule move_item_nth_to)
  have c2: "take ?t (header (fst (moveColumn m fromIndex toIndex)))
              @ drop (Suc ?t) (header (fst (moveColumn m fromIndex toIndex)))
            = take ?f (header m) @ drop (Suc ?f) (header m)"
    unfolding h using fl tl by (rule move_item_others)
  have c4: "list_all (\<lambda>row. list_all2 corr (header (fst (moveColumn m fromIndex toIndex))) row)
              (data (fst (moveColumn m fromIndex toIndex)))"
    unfolding h d using aligned by (auto simp: list_all_iff intro: move_item_all2)
  have c5: "header (fst (moveColumn m fromIndex toIndex)) ! j = header m ! moved_from ?f ?t j"
    if "j < length (header m)" for j
    unfolding h using fl tl that by (rule move_item_nth)
  have c6: "data (fst (moveColumn m fromIndex toIndex)) ! i ! j = data m ! i ! moved_from ?f ?t j"
    if "j < length (header m)" "i < length (data m)" for i j
  proof -
    have "length (data m ! i) = length (header m)"
      using that(2) by (intro row_len) simp
    then have "move_item ?f ?t (data m ! i) ! j = data m ! i ! moved_from ?f ?t j"
      using fl tl that(1) by (intro move_item_nth) simp_all
    then show ?thesis
      unfolding d using that(2) by simp
  qed
  show ?thesis
    using c1 c2 d c4 c5 c6 by blast
qed

theorem moveColumn_keeps_alignment_witness:
  "in_range 0 (header sample_grid) \<and> in_range 2 (header sample_grid)
   \<and> list_all (\<lambda>row. list_all2 (\<lambda>h c. header_data h = item_data c) (header sample_grid) row)
        (data sample_grid)
   \<and> map header_data (header (fst (moveColumn sample_grid 0 2))) = [''B'', ''C'', ''A'']
   \<and> list_all (\<lambda>row. list_all2 (\<lambda>h c. header_data h = item_data c)
                        (header (fst (moveColumn sample_grid 0 2))) row)
        (data (fst (moveColumn sample_grid 0 2)))
   \<and> header (fst (moveColumn sample_grid 0 2)) ! 2 = header sample_grid ! 0"
proof -
  have pre: "in_range 0 (header sample_grid)" "in_range 2 (header sample_grid)"
    "list_all (\<lambda>row. list_all2 (\<lambda>h c. header_data h = item_data c) (header sample_grid) row)
        (data sample_grid)"
    by (simp_all add: sample_grid_def in_range_def sample_defs)
  have names: "map header_data (header (fst (moveColumn sample_grid 0 2))) = [''B'', ''C'', ''A'']"
    by (simp add: moveColumn_def move_item_def sample_grid_def in_range_def sample_defs)
  note th = moveColumn_keeps_alignment [OF pre]
  have moved: "header (fst (moveColumn sample_grid 0 2)) ! 2 = header sample_grid ! 0"
    using th by simp
  have still: "list_all (\<lambda>row. list_all2 (\<lambda>h c. header_data h = item_data c)
                        (header (fst (moveColumn sample_grid 0 2))) row)
        (data (fst (moveColumn sample_grid 0 2)))"
    using th by blast
  show ?thesis
    using pre names moved still by blast
qed

section \<open>Filtering\<close>





subsection \<open>The documented example filter\<close>

text \<open>
  The example filter of the documentation returns false for a cell that contains the
  filter's text. Read by \<open>isRowFiltered\<close> as the specification words it, a header
  with that filter hides exactly the rows whose cell contains the text, and with no text
  typed it hides every row.
\<close>

lemma indexOf_empty: "indexOf s [] = 0"
  by (simp add: indexOf_def upt_rec [of 0])

lemma example_filter_hides_matches:
  assumes "header m = [filtering_header d (example_filter toLowerCase filterData)]"
    and "in_range i (data m)" and "data m ! nat i = [c]"
  shows "isRowFiltered m i \<longleftrightarrow> 0 \<le> indexOf (toLowerCase (item_data c)) (toLowerCase filterData)"
  using assms
  by (simp add: isRowFiltered_def fails_filter_def filtering_header_def example_filter_def)

lemma example_filter_no_text_hides_all:
  assumes "header m = [filtering_header d (example_filter toLowerCase [])]"
    and "toLowerCase [] = []"
    and "in_range i (data m)" and "data m ! nat i = [c]"
  shows "isRowFiltered m i"
  using example_filter_hides_matches [OF assms(1,3,4)] assms(2) by (simp add: indexOf_empty)

section \<open>Lengths of the bookkeeping arrays\<close>

lemma length_rederive: "length (rederive p n d old) = n"
  by (cases p) (simp_all add: rederive_def)

lemma lengths_agree_mutation:
  "lengths_agree m \<Longrightarrow> lengths_agree (apply_mutation m op)"
  by (cases op)
     (simp_all add: lengths_agree_def selectRow_def selectAll_def expandRow_def moveColumn_def
        setData_def length_rederive)

lemma lengths_agree_mutations:
  "lengths_agree m \<Longrightarrow> lengths_agree (foldl apply_mutation m ops)"
  by (induction ops arbitrary: m) (simp_all add: lengths_agree_mutation)

lemma lengths_agree_model_call:
  assumes "\<And>m. lengths_agree m \<Longrightarrow> lengths_agree (fst (f m))"
    and "lengths_agree (model t)"
  shows "lengths_agree (model (model_call t f))"
  using assms by (simp add: model_model_call)

lemma lengths_agree_selectRow: "lengths_agree m \<Longrightarrow> lengths_agree (fst (selectRow m i v))"
  using lengths_agree_mutation [of m "SelectRowOp i v"] by simp

lemma lengths_agree_expandRow: "lengths_agree m \<Longrightarrow> lengths_agree (fst (expandRow m i v))"
  using lengths_agree_mutation [of m "ExpandRowOp i v"] by simp

lemma lengths_agree_moveColumn: "lengths_agree m \<Longrightarrow> lengths_agree (fst (moveColumn m i j))"
  using lengths_agree_mutation [of m "MoveColumnOp i j"] by simp

lemma lengths_agree_fold:
  assumes "\<And>x t. lengths_agree (model t) \<Longrightarrow> lengths_agree (model (g x t))"
  shows "lengths_agree (model t) \<Longrightarrow> lengths_agree (model (fold g xs t))"
  by (induction xs arbitrary: t) (simp_all add: assms)

lemma lengths_agree_onRowSelect:
  assumes "lengths_agree (model t)"
  shows "lengths_agree (model (onRowSelect t written i))"
proof (cases "\<not> showSelectionColumn t \<and> enableSingleSelect t")
  case True
  let ?t1 = "fold (\<lambda>index t'. model_call t' (\<lambda>m. selectRow m (int index) False))
               (filter written [0 ..< length (rowsSelected (model t))]) t"
  have "lengths_agree (model ?t1)"
    using assms by (intro lengths_agree_fold lengths_agree_model_call lengths_agree_selectRow)
  then have "lengths_agree (model (model_call ?t1
      (\<lambda>m. selectRow m (int i) (\<not> truthy (js_index (rowsSelected (model ?t1)) i)))))"
    by (intro lengths_agree_model_call lengths_agree_selectRow)
  with True show ?thesis
    by (simp add: onRowSelect_def Let_def)
next
  case False
  with assms show ?thesis by (auto simp: onRowSelect_def)
qed

lemma lengths_agree_perform:
  assumes "lengths_agree (model t)"
  shows "lengths_agree (model (perform t a))"
proof (cases a)
  case (RowSelect written i)
  with assms show ?thesis by (simp add: lengths_agree_onRowSelect)
next
  case SelectAllCheckboxChange
  with assms show ?thesis
    by (simp add: onSelectAllCheckboxChange_def Let_def set_rows_from_0 lengths_agree_def
          del: set_rows_from.simps)
next
  case (RowCheckboxChange i)
  with assms show ?thesis
    by (simp add: onRowCheckboxChange_def Let_def del: differs_from.simps)
next
  case (SortClick i)
  with assms show ?thesis by (simp add: sortClick_def)
next
  case (ExpandClick i)
  with assms show ?thesis
    unfolding ExpandClick perform.simps expandClick_def
    by (intro lengths_agree_model_call lengths_agree_expandRow)
next
  case (ColumnDrop f p c)
  have "lengths_agree (model (t\<lparr>isColumnDragging := False, columnDraggedHoverIndex := - 1,
                                columnDraggedPosition := []\<rparr>))"
    using assms by simp
  then show ?thesis
    unfolding ColumnDrop perform.simps columnDrop_def
    by (intro lengths_agree_model_call lengths_agree_moveColumn)
qed

text \<open>
  C6. After any sequence of mutations of the model (selecting a row, selecting all,
  expanding a row, moving a column, replacing \<open>data\<close>), from the empty model or from
  any model whose arrays agree, \<open>rowsSelected\<close>, \<open>rowsExpanded\<close> and
  \<open>rowsContext\<close> have the length of \<open>data\<close>; the handlers of the table keep it so
  too; and replacing \<open>data\<close> re-derives the three arrays at the length of the new
  data, under either policy.
\<close>

theorem bookkeeping_lengths_agree:
  "lengths_agree (foldl apply_mutation empty_model ops)
   \<and> (lengths_agree m \<longrightarrow> lengths_agree (foldl apply_mutation m ops))
   \<and> (lengths_agree (model t) \<longrightarrow> lengths_agree (model (fold (\<lambda>a t'. perform t' a) acts t)))
   \<and> data (fst (setData p m newData)) = newData
   \<and> length (rowsSelected (fst (setData p m newData))) = length newData
   \<and> length (rowsExpanded (fst (setData p m newData))) = length newData
   \<and> length (rowsContext (fst (setData p m newData))) = length newData"
proof -
  have "lengths_agree empty_model"
    by (simp add: lengths_agree_def empty_model_def)
  then have a: "lengths_agree (foldl apply_mutation empty_model ops)"
    by (rule lengths_agree_mutations)
  have b: "lengths_agree (model (fold (\<lambda>a t'. perform t' a) acts t))" if "lengths_agree (model t)"
    using that by (intro lengths_agree_fold lengths_agree_perform)
  show ?thesis
    using a b by (simp add: lengths_agree_mutations setData_def length_rederive)
qed

theorem bookkeeping_lengths_agree_witness:
  "lengths_agree (model_with_rows [Some True])
   \<and> lengths_agree (foldl apply_mutation (model_with_rows [Some True])
        [SetDataOp Reset [[plain_item ''a''], [plain_item ''b''], [plain_item ''c'']],
         SelectRowOp 2 True, SelectRowOp 5 True, ExpandRowOp 1 True, MoveColumnOp 0 0,
         SelectAllOp True, SetDataOp PreserveByIndex [[plain_item ''a''], [plain_item ''b'']]])
   \<and> rowsSelected (foldl apply_mutation (model_with_rows [Some True])
        [SetDataOp Reset [[plain_item ''a''], [plain_item ''b''], [plain_item ''c'']],
         SelectRowOp 2 True, SelectRowOp 5 True, ExpandRowOp 1 True, MoveColumnOp 0 0,
         SelectAllOp True, SetDataOp PreserveByIndex [[plain_item ''a''], [plain_item ''b'']]])
       = [Some True, Some True]
   \<and> lengths_agree (model (table_of (model_with_rows [Some True])))
   \<and> lengths_agree (model (fold (\<lambda>a t'. perform t' a)
        [RowCheckboxChange 0, SelectAllCheckboxChange, ExpandClick 0, SortClick 0,
         ColumnDrop 0 DropRight 0, RowSelect (\<lambda>k. True) 0]
        (table_of (model_with_rows [Some True]))))"
proof -
  have pre: "lengths_agree (model_with_rows [Some True])"
      "lengths_agree (model (table_of (model_with_rows [Some True])))"
    by (simp_all add: lengths_agree_def sample_defs)
  have rows: "rowsSelected (foldl apply_mutation (model_with_rows [Some True])
        [SetDataOp Reset [[plain_item ''a''], [plain_item ''b''], [plain_item ''c'']],
         SelectRowOp 2 True, SelectRowOp 5 True, ExpandRowOp 1 True, MoveColumnOp 0 0,
         SelectAllOp True, SetDataOp PreserveByIndex [[plain_item ''a''], [plain_item ''b'']]])
       = [Some True, Some True]"
    by (simp add: setData_def rederive_def selectRow_def selectAll_def expandRow_def
          moveColumn_def in_range_def move_item_def sample_defs)
  show ?thesis
    using pre rows
      bookkeeping_lengths_agree [of
        "[SetDataOp Reset [[plain_item ''a''], [plain_item ''b''], [plain_item ''c'']],
         SelectRowOp 2 True, SelectRowOp 5 True, ExpandRowOp 1 True, MoveColumnOp 0 0,
         SelectAllOp True, SetDataOp PreserveByIndex [[plain_item ''a''], [plain_item ''b'']]]"
        "model_with_rows [Some True]" "table_of (model_with_rows [Some True])"
        "[RowCheckboxChange 0, SelectAllCheckboxChange, ExpandClick 0, SortClick 0,
         ColumnDrop 0 DropRight 0, RowSelect (\<lambda>k. True) 0]"]
    by blast
qed

section \<open>Sorting\<close>

text \<open>
  C7. A click on the sort button of column \<open>i\<close> emits \<open>i\<close> on the output
  \<open>sort\<close> and does nothing else: the model, its data rows and every header's
  \<open>sorted\<close> and \<open>descending\<close> flags are as before.
\<close>

theorem sortClick_only_emits:
  "outputs (sortClick t i) = outputs t @ [Sort i]
   \<and> model (sortClick t i) = model t
   \<and> data (model (sortClick t i)) = data (model t)
   \<and> map sorted (header (model (sortClick t i))) = map sorted (header (model t))
   \<and> map descending (header (model (sortClick t i))) = map descending (header (model t))
   \<and> sortClick t i = t\<lparr>outputs := outputs t @ [Sort i]\<rparr>"
  by (simp add: sortClick_def)

section \<open>Expansion\<close>

text \<open>
  C8. For an in-range index, \<open>expandRow\<close> sets \<open>rowsExpanded\<close> at that index and
  at no other; for any index it leaves \<open>data\<close> alone, and with it every row's children
  and the children's own expansion flags, as does the expand button of the table.
\<close>

theorem expandRow_row_local:
  "(in_range i (rowsExpanded m) \<longrightarrow>
      rowsExpanded (fst (expandRow m i expand)) = (rowsExpanded m)[nat i := Some expand]
      \<and> js_index (rowsExpanded (fst (expandRow m i expand))) (nat i) = Some expand
      \<and> (\<forall>j. j \<noteq> nat i \<longrightarrow>
             js_index (rowsExpanded (fst (expandRow m i expand))) j = js_index (rowsExpanded m) j))
   \<and> data (fst (expandRow m i expand)) = data m
   \<and> map (map expandedData) (data (fst (expandRow m i expand))) = map (map expandedData) (data m)
   \<and> rowsSelected (fst (expandRow m i expand)) = rowsSelected m
   \<and> header (fst (expandRow m i expand)) = header m
   \<and> data (model (expandClick t k)) = data (model t)"
proof -
  have a: "rowsExpanded (fst (expandRow m i expand)) = (rowsExpanded m)[nat i := Some expand]"
    if "in_range i (rowsExpanded m)"
    using that by (simp add: expandRow_def)
  have b: "js_index (rowsExpanded (fst (expandRow m i expand))) (nat i) = Some expand"
    if "in_range i (rowsExpanded m)"
    using that in_range_nat [OF that] by (simp add: a js_index_def)
  have c: "js_index (rowsExpanded (fst (expandRow m i expand))) j = js_index (rowsExpanded m) j"
    if "in_range i (rowsExpanded m)" "j \<noteq> nat i" for j
    using that by (simp add: a js_index_def)
  have d: "data (fst (expandRow m i expand)) = data m"
      "rowsSelected (fst (expandRow m i expand)) = rowsSelected m"
      "header (fst (expandRow m i expand)) = header m" for m i expand
    by (simp_all add: expandRow_def)
  have e: "data (model (expandClick t k)) = data (model t)"
    by (simp add: expandClick_def model_model_call d)
  show ?thesis
    using a b c d e by simp
qed

theorem expandRow_row_local_witness:
  "in_range 0 (rowsExpanded sample_tree)
   \<and> rowsExpanded (fst (expandRow sample_tree 0 False)) = [Some False, Some False]
   \<and> js_index (rowsExpanded (fst (expandRow sample_tree 0 False))) 1
       = js_index (rowsExpanded sample_tree) 1
   \<and> map (map expandedData) (data (fst (expandRow sample_tree 0 False)))
       = [[[RowNode ''child'' True [RowNode ''grandchild'' False []]]], [[]]]"
proof -
  have pre: "in_range 0 (rowsExpanded sample_tree)"
    by (simp add: sample_tree_def in_range_def sample_defs)
  have kids: "map (map expandedData) (data sample_tree)
                = [[[RowNode ''child'' True [RowNode ''grandchild'' False []]]], [[]]]"
      and rows: "rowsExpanded sample_tree = [Some True, Some False]"
    by (simp_all add: sample_tree_def sample_defs)
  note th = expandRow_row_local [of 0 sample_tree False "table_of sample_tree" 0]
  have r: "rowsExpanded (fst (expandRow sample_tree 0 False)) = [Some False, Some False]"
    using th pre by (simp add: rows)
  have o: "js_index (rowsExpanded (fst (expandRow sample_tree 0 False))) 1
       = js_index (rowsExpanded sample_tree) 1"
    using th pre by (simp add: rows js_index_def)
  have k: "map (map expandedData) (data (fst (expandRow sample_tree 0 False)))
       = [[[RowNode ''child'' True [RowNode ''grandchild'' False []]]], [[]]]"
    using th kids by simp
  show ?thesis
    using pre r o k by blast
qed

section \<open>A failed sprite request\<close>

text \<open>
  C9. When the HTTP request for a sprite fails, \<open>doSpriteRequest\<close> writes one error
  message to the console and ends the observable with that message as its error; it
  sends the one request and no other (no retry), and does nothing else but count the
  request as running.
\<close>

theorem doSpriteRequest_failure:
  assumes "http (baseURL s @ name @ ''.svg'') = HttpFailure"
  shows "snd (doSpriteRequest http s name) = Inl (sprite_error name)
       \<and> console_errors (fst (doSpriteRequest http s name)) = console_errors s @ [sprite_error name]
       \<and> http_requests (fst (doSpriteRequest http s name))
           = http_requests s @ [baseURL s @ name @ ''.svg'']
       \<and> runningRequests (fst (doSpriteRequest http s name)) = runningRequests s + 1
       \<and> baseURL (fst (doSpriteRequest http s name)) = baseURL s"
  using assms by (simp add: doSpriteRequest_def Let_def)

theorem doSpriteRequest_failure_witness:
  "failing_server (baseURL fresh_icon_service @ ''core'' @ ''.svg'') = HttpFailure
   \<and> snd (doSpriteRequest failing_server fresh_icon_service ''core'')
       = Inl ''failed to load sprite core, check that the server is available and baseURL is correct''
   \<and> console_errors (fst (doSpriteRequest failing_server fresh_icon_service ''core''))
       = [''failed to load sprite core, check that the server is available and baseURL is correct'']
   \<and> http_requests (fst (doSpriteRequest failing_server fresh_icon_service ''core''))
       = [''https://peretz-icons.mybluemix.net/core.svg'']"
  using doSpriteRequest_failure [of failing_server fresh_icon_service "''core''"]
  by (simp add: failing_server_def fresh_icon_service_def sprite_error_def)

end
